theory Spec2Isabelle
  imports Main
begin

section \<open>Data model (server.go, lines 20-36)\<close>

text \<open>
  The server keeps three global maps and one channel. The maps hold pointers to
  \<open>Client\<close> objects and slices of such pointers, and the code relies on the sharing
  between a slice header and its backing array, so the model has an explicit store:
  \<open>heap\<close> maps the address of a \<open>Client\<close> to its fields and \<open>arrays\<close> maps the identity
  of a backing array to its slots. A slice is the Go header (array, length, capacity);
  every slice of the program starts at slot 0 of its array.

  A \<open>net.Conn\<close> is identified by a number. The state records for each connection its
  peer address, whether \<open>Close\<close> has been called, whether writes to it fail
  (\<open>down\<close>, decided by the network), and the lines written to it so far (\<open>wire\<close>).

  The mutex is not represented: each operation below runs to its end before the next one
  starts. The channel \<open>broadcast\<close> is represented by the messages sent on it and not yet
  received by \<open>handleBroadcast\<close>, oldest first. The channel is made without a buffer
  (\<open>make(chan string)\<close>), so in the program a sender stays in its send statement until
  the router receives the message; the model records what is sent and in which order,
  not who waits for whom.
\<close>

type_synonym conn = nat
type_synonym cptr = nat

record Client =
  conn :: conn
  username :: string
  room :: string

record BannedUser =
  Address :: string

record slice =
  arr :: nat
  len :: nat
  cap :: nat

record state =
  clients :: "conn \<rightharpoonup> cptr"
  rooms :: "string \<rightharpoonup> slice"
  broadcast :: "string list"
  bannedUsers :: "string \<rightharpoonup> BannedUser"
  heap :: "cptr \<Rightarrow> Client"
  next_client :: cptr
  arrays :: "nat \<Rightarrow> cptr list"
  next_array :: nat
  RemoteAddr :: "conn \<Rightarrow> string"
  closed :: "conn \<Rightarrow> bool"
  down :: "conn \<Rightarrow> bool"
  wire :: "conn \<Rightarrow> string list"

text \<open>The state at process start: empty maps, nothing allocated, nothing written.\<close>

definition init :: state where
  "init = \<lparr>clients = Map.empty, rooms = Map.empty, broadcast = [],
           bannedUsers = Map.empty,
           heap = (\<lambda>_. \<lparr>conn = 0, username = [], room = []\<rparr>), next_client = 1,
           arrays = (\<lambda>_. []), next_array = 1,
           RemoteAddr = (\<lambda>_. []), closed = (\<lambda>_. False), down = (\<lambda>_. False),
           wire = (\<lambda>_. [])\<rparr>"

section \<open>Library operations used by the server\<close>

text \<open>\<open>strings.Split(s, " ")\<close>: the pieces of \<open>s\<close> between single spaces; one piece more
  than there are spaces, so never an empty list.\<close>

fun Split :: "string \<Rightarrow> string list" where
  "Split [] = [[]]"
| "Split (x # xs) =
     (if x = CHR '' '' then [] # Split xs
      else (case Split xs of [] \<Rightarrow> [[x]] | p # ps \<Rightarrow> (x # p) # ps))"

text \<open>\<open>strings.HasPrefix(message, "/")\<close>.\<close>

definition HasPrefix_slash :: "string \<Rightarrow> bool" where
  "HasPrefix_slash message = (case message of [] \<Rightarrow> False | x # _ \<Rightarrow> x = CHR ''/'')"

text \<open>\<open>conn.Write\<close>: the bytes reach the peer unless the connection has been closed or
  the network has failed; the result component is the error flag.\<close>

definition conn_Write :: "conn \<Rightarrow> string \<Rightarrow> state \<Rightarrow> bool \<times> state" where
  "conn_Write c b s =
     (if closed s c \<or> down s c then (True, s)
      else (False, s\<lparr>wire := (wire s)(c := wire s c @ [b])\<rparr>))"

definition conn_Close :: "conn \<Rightarrow> state \<Rightarrow> state" where
  "conn_Close c s = s\<lparr>closed := (closed s)(c := True)\<rparr>"

text \<open>\<open>broadcast <- m\<close>.\<close>

definition send :: "string \<Rightarrow> state \<Rightarrow> state" where
  "send m s = s\<lparr>broadcast := broadcast s @ [m]\<rparr>"

text \<open>The elements a slice header shows.\<close>

definition elems :: "state \<Rightarrow> slice \<Rightarrow> cptr list" where
  "elems s sl = take (len sl) (arrays s (arr sl))"

text \<open>The nil slice, which a map lookup returns for a missing key, and which stands for
  the empty literal \<open>[]*Client{}\<close> as well: length and capacity 0.\<close>

definition nil_slice :: slice where
  "nil_slice = \<lparr>arr = 0, len = 0, cap = 0\<rparr>"

definition rooms_at :: "state \<Rightarrow> string \<Rightarrow> slice" where
  "rooms_at s r = (case rooms s r of None \<Rightarrow> nil_slice | Some sl \<Rightarrow> sl)"

text \<open>
  The capacity the runtime gives a slice that has to grow (\<open>growslice\<close>): the length
  needed when that is more than twice the old capacity, and twice the old capacity
  otherwise. This is the runtime's rule for slices of pointers as long as the old
  capacity is below 256, so the model has the capacities of the program while a room
  has had no more than 256 members; beyond that the runtime grows in smaller steps.
\<close>

definition growslice :: "nat \<Rightarrow> nat \<Rightarrow> nat" where
  "growslice oldcap needed = (if 2 * oldcap < needed then needed else 2 * oldcap)"

text \<open>
  \<open>append(sl, xs...)\<close>. When the capacity suffices the elements are written into the
  backing array of \<open>sl\<close>, behind its length, and the array is shared with every other
  header on it. Otherwise a new array of the capacity above is allocated, the elements
  of \<open>sl\<close> and the new ones are copied into it, and the spare slots hold the nil
  pointer, written 0; the old array stays as it is.
\<close>

definition go_append :: "slice \<Rightarrow> cptr list \<Rightarrow> state \<Rightarrow> slice \<times> state" where
  "go_append sl xs s =
     (let a = arrays s (arr sl); n = len sl in
      if n + length xs \<le> cap sl
      then (sl\<lparr>len := n + length xs\<rparr>,
            s\<lparr>arrays := (arrays s)(arr sl := take n a @ xs @ drop (n + length xs) a)\<rparr>)
      else (let newcap = growslice (cap sl) (n + length xs) in
            (\<lparr>arr = next_array s, len = n + length xs, cap = newcap\<rparr>,
             s\<lparr>arrays := (arrays s)(next_array s :=
                   take n a @ xs @ replicate (newcap - (n + length xs)) 0),
               next_array := next_array s + 1\<rparr>)))"

section \<open>removeClient (lines 150-157)\<close>

text \<open>The loop looks for the first index holding the pointer.\<close>

fun index_of :: "cptr \<Rightarrow> cptr list \<Rightarrow> nat option" where
  "index_of p [] = None"
| "index_of p (x # xs) =
     (if x = p then Some 0 else map_option Suc (index_of p xs))"

definition removeClient :: "slice \<Rightarrow> cptr \<Rightarrow> state \<Rightarrow> slice \<times> state" where
  "removeClient sl client s =
     (case index_of client (elems s sl) of
        Some i \<Rightarrow> go_append (sl\<lparr>len := i\<rparr>) (drop (i + 1) (elems s sl)) s
      | None \<Rightarrow> (sl, s))"

section \<open>Rendered lines\<close>

definition dq :: string where
  "dq = [CHR 0x22]"

definition notice_left :: "string \<Rightarrow> string \<Rightarrow> string" where
  "notice_left r u = ''['' @ r @ ''] Notice: '' @ dq @ u @ dq @ '' left the chat room.\<newline>''"

definition notice_joined :: "string \<Rightarrow> string \<Rightarrow> string" where
  "notice_joined r u = ''['' @ r @ ''] Notice: '' @ dq @ u @ dq @ '' joined the chat room.\<newline>''"

definition notice_created :: "string \<Rightarrow> string \<Rightarrow> string" where
  "notice_created r u =
     ''['' @ r @ ''] Notice: '' @ dq @ u @ dq @ '' created and joined the chat room.\<newline>''"

text \<open>Line 73; \<open>now\<close> is the result of \<open>time.Now().Format("3:04PM")\<close>.\<close>

definition chat_line :: "string \<Rightarrow> string \<Rightarrow> string \<Rightarrow> string \<Rightarrow> string" where
  "chat_line r now u message = ''['' @ r @ ''] '' @ now @ '' - '' @ u @ '': '' @ message @ ''\<newline>''"

definition msg_banned :: string where
  "msg_banned = ''You are banned from the chat.\<newline>''"

definition msg_no_room :: "string \<Rightarrow> string" where
  "msg_no_room r =
     ''Room '' @ r @ '' does not exist. Use /create [room_name] to create a new room.\<newline>''"

definition msg_room_exists :: "string \<Rightarrow> string" where
  "msg_room_exists r =
     ''Room '' @ r @ '' already exists. Use /join [room_name] to join the room.\<newline>''"

definition msg_must_join :: string where
  "msg_must_join = ''You must join a room first using /join [room_name] or create a room using /create [room_name].\<newline>''"

definition msg_kicked :: string where
  "msg_kicked = ''You have been kicked from the chat.\<newline>''"

definition msg_help :: string where
  "msg_help = ''/join [room_name] - Join a room\<newline>'' @
              ''/create [room_name] - Create a room\<newline>'' @
              ''/help - Show this help message\<newline>''"

section \<open>handleCommand (lines 79-148)\<close>

text \<open>\<open>client.conn.Write(b)\<close>, the error ignored.\<close>

definition reply :: "cptr \<Rightarrow> string \<Rightarrow> state \<Rightarrow> state" where
  "reply client b s = snd (conn_Write (conn (heap s client)) b s)"

definition banned :: "state \<Rightarrow> conn \<Rightarrow> bool" where
  "banned s c = (bannedUsers s (RemoteAddr s c) \<noteq> None)"

text \<open>The block of lines 58-61, 101-104 and 129-132: leave the current room, if any,
  and send the notice.\<close>

definition leave_room :: "cptr \<Rightarrow> state \<Rightarrow> state" where
  "leave_room client s =
     (let r = room (heap s client) in
      if r \<noteq> [] then
        (let (sl, s1) = removeClient (rooms_at s r) client s;
             s2 = s1\<lparr>rooms := (rooms s1)(r \<mapsto> sl)\<rparr>
         in send (notice_left r (username (heap s2 client))) s2)
      else s)"

text \<open>Lines 105-106 and 133-134.\<close>

definition enter_room :: "string \<Rightarrow> cptr \<Rightarrow> state \<Rightarrow> state" where
  "enter_room roomName client s =
     (let s1 = s\<lparr>heap := (heap s)(client := (heap s client)\<lparr>room := roomName\<rparr>)\<rparr>;
          (sl, s2) = go_append (rooms_at s1 roomName) [client] s1
      in s2\<lparr>rooms := (rooms s2)(roomName \<mapsto> sl)\<rparr>)"

definition handleCommand :: "string \<Rightarrow> cptr \<Rightarrow> state \<Rightarrow> state" where
  "handleCommand message client s =
     (case Split message of
        [] \<Rightarrow> s
      | command # args \<Rightarrow>
          if command = ''/join'' then
            (case args of
               [] \<Rightarrow> reply client ''Usage: /join [room_name]\<newline>'' s
             | roomName # _ \<Rightarrow>
                 if rooms s roomName = None then reply client (msg_no_room roomName) s
                 else if banned s (conn (heap s client)) then reply client msg_banned s
                 else
                   (let s1 = leave_room client s;
                        s2 = enter_room roomName client s1;
                        s3 = reply client (''Joined room '' @ roomName @ ''\<newline>'') s2
                    in send (notice_joined roomName (username (heap s3 client))) s3))
          else if command = ''/create'' then
            (case args of
               [] \<Rightarrow> reply client ''Usage: /create [room_name]\<newline>'' s
             | roomName # _ \<Rightarrow>
                 if rooms s roomName \<noteq> None then reply client (msg_room_exists roomName) s
                 else if banned s (conn (heap s client)) then reply client msg_banned s
                 else
                   (let s0 = s\<lparr>rooms := (rooms s)(roomName \<mapsto> nil_slice)\<rparr>;
                        s1 = leave_room client s0;
                        s2 = enter_room roomName client s1;
                        s3 = reply client (''Created and joined room '' @ roomName @ ''\<newline>'') s2
                    in send (notice_created roomName (username (heap s3 client))) s3))
          else if command = ''/help'' then reply client msg_help s
          else reply client ''Unknown command. Type /help for a list of commands.\<newline>'' s)"

section \<open>handleConnection (lines 38-77)\<close>

text \<open>Lines 39-51, for a connection just accepted from peer address \<open>addr\<close>: the
  \<open>Client\<close> is allocated and registered, then the ban list is consulted. The result says
  whether the handler goes on to its read loop, and with which \<open>Client\<close>.\<close>

definition handleConnection_start :: "conn \<Rightarrow> string \<Rightarrow> state \<Rightarrow> (cptr \<times> bool) \<times> state" where
  "handleConnection_start c addr s =
     (let client = next_client s;
          s1 = s\<lparr>RemoteAddr := (RemoteAddr s)(c := addr),
                 heap := (heap s)(client := \<lparr>conn = c, username = ''Anonymous'', room = []\<rparr>),
                 next_client := next_client s + 1\<rparr>;
          s2 = s1\<lparr>clients := (clients s1)(c \<mapsto> client)\<rparr>
      in if banned s2 c
         then ((client, False), conn_Close c (conn_Close c (snd (conn_Write c msg_banned s2))))
         else ((client, True), s2))"

text \<open>Lines 55-64, when the read fails, followed by the deferred \<open>conn.Close()\<close>.\<close>

definition handleConnection_readerr :: "cptr \<Rightarrow> state \<Rightarrow> state" where
  "handleConnection_readerr client s =
     (let s1 = leave_room client s;
          c = conn (heap s1 client);
          s2 = s1\<lparr>clients := (clients s1)(c := None)\<rparr>
      in conn_Close c s2)"

text \<open>Lines 66-75, for a line read; \<open>message\<close> is the line after
  \<open>strings.TrimSpace\<close>.\<close>

definition handleConnection_line :: "string \<Rightarrow> string \<Rightarrow> cptr \<Rightarrow> state \<Rightarrow> state" where
  "handleConnection_line message now client s =
     (if HasPrefix_slash message then handleCommand message client s
      else if room (heap s client) = [] then reply client msg_must_join s
      else send (chat_line (room (heap s client)) now (username (heap s client)) message) s)"

section \<open>handleBroadcast (lines 159-176)\<close>

text \<open>\<open>strings.SplitN(s, " ", n)\<close>: at most \<open>n\<close> pieces, the last one the unsplit rest.\<close>

fun SplitN :: "string \<Rightarrow> nat \<Rightarrow> string list" where
  "SplitN s 0 = []"
| "SplitN s (Suc 0) = [s]"
| "SplitN [] (Suc (Suc n)) = [[]]"
| "SplitN (x # xs) (Suc (Suc n)) =
     (if x = CHR '' '' then [] # SplitN xs (Suc n)
      else (case SplitN xs (Suc (Suc n)) of [] \<Rightarrow> [[x]] | p # ps \<Rightarrow> (x # p) # ps))"

text \<open>
  The loop of lines 165-173. The range expression \<open>rooms[room]\<close> is evaluated once, so
  the loop runs over the header it had then: array \<open>a\<close>, and as many rounds as its length.
  Each round reads slot \<open>i\<close> of the array as it is at that moment; \<open>removeClient\<close> in the
  body moves the slots of that same array. \<open>k\<close> counts the rounds left. \<open>None\<close> is a
  run-time panic.
\<close>

fun fanout :: "string \<Rightarrow> string \<Rightarrow> nat \<Rightarrow> nat \<Rightarrow> nat \<Rightarrow> state \<Rightarrow> state option" where
  "fanout r message a i 0 s = Some s"
| "fanout r message a i (Suc k) s =
     (if i < length (arrays s a) then
        (let client = arrays s a ! i;
             c = conn (heap s client);
             (err, s1) = conn_Write c message s
         in if err then
              (let s2 = conn_Close c s1;
                   s3 = s2\<lparr>clients := (clients s2)(c := None)\<rparr>;
                   (sl, s4) = removeClient (rooms_at s3 r) client s3
               in fanout r message a (i + 1) k (s4\<lparr>rooms := (rooms s4)(r \<mapsto> sl)\<rparr>))
            else fanout r message a (i + 1) k s1)
      else None)"

text \<open>Lines 162-174 for a received message. The slice expression
  \<open>parts[0][1 : len(parts[0])-1]\<close> panics when \<open>parts[0]\<close> has fewer than two bytes.\<close>

definition deliver :: "string \<Rightarrow> state \<Rightarrow> state option" where
  "deliver message s =
     (case SplitN message 3 of
        [] \<Rightarrow> None
      | p0 # _ \<Rightarrow>
          if length p0 < 2 then None
          else (let r = take (length p0 - 2) (drop 1 p0);
                    h = rooms_at s r
                in fanout r message (arr h) 0 (len h) s))"

text \<open>One round of the outer loop: receive the oldest message and deliver it. With
  nothing to receive the router waits and the state stays as it is.\<close>

definition handleBroadcast :: "state \<Rightarrow> state option" where
  "handleBroadcast s =
     (case broadcast s of
        [] \<Rightarrow> Some s
      | message # rest \<Rightarrow> deliver message (s\<lparr>broadcast := rest\<rparr>))"

section \<open>Moderation (lines 194-243)\<close>

text \<open>The inner loop of \<open>kickUser\<close> looks for the first member whose connection is the
  one given.\<close>

fun find_conn :: "state \<Rightarrow> conn \<Rightarrow> cptr list \<Rightarrow> nat option" where
  "find_conn s c [] = None"
| "find_conn s c (p # ps) =
     (if conn (heap s p) = c then Some 0 else map_option Suc (find_conn s c ps))"

text \<open>
  \<open>kickUser\<close> (lines 224-235). Go visits the keys of a map in an order of the
  runtime's choosing; the order in which \<open>range rooms\<close> visits the room names is the
  first argument. The function returns at the first match.
\<close>

fun kickUser :: "string list \<Rightarrow> conn \<Rightarrow> state \<Rightarrow> state" where
  "kickUser [] c s = s"
| "kickUser (r # rs) c s =
     (let roomClients = rooms_at s r in
      case find_conn s c (elems s roomClients) of
        None \<Rightarrow> kickUser rs c s
      | Some i \<Rightarrow>
          (let client = elems s roomClients ! i;
               (sl, s1) = go_append (roomClients\<lparr>len := i\<rparr>)
                            (drop (i + 1) (elems s roomClients)) s;
               s2 = s1\<lparr>rooms := (rooms s1)(room (heap s1 client) \<mapsto> sl)\<rparr>;
               s3 = s2\<lparr>heap := (heap s2)(client := (heap s2 client)\<lparr>room := []\<rparr>)\<rparr>
           in snd (conn_Write c msg_kicked s3)))"

text \<open>\<open>banUser\<close> (lines 237-243).\<close>

definition banUser :: "string list \<Rightarrow> conn \<Rightarrow> state \<Rightarrow> state" where
  "banUser ord c s =
     (let connAddr = RemoteAddr s c;
          s1 = s\<lparr>bannedUsers := (bannedUsers s)(connAddr \<mapsto> \<lparr>Address = connAddr\<rparr>)\<rparr>
      in kickUser ord c s1)"

text \<open>The console commands \<open>/kick\<close> and \<open>/ban\<close> (lines 194-217): the first registered
  connection, in the order \<open>cs\<close> in which \<open>range clients\<close> visits them, whose peer
  address is the one typed.\<close>

fun find_addr :: "state \<Rightarrow> string \<Rightarrow> conn list \<Rightarrow> conn option" where
  "find_addr s ip [] = None"
| "find_addr s ip (c # cs) =
     (if clients s c \<noteq> None \<and> RemoteAddr s c = ip then Some c else find_addr s ip cs)"

definition adminConsole_kick :: "conn list \<Rightarrow> string list \<Rightarrow> string \<Rightarrow> state \<Rightarrow> state" where
  "adminConsole_kick cs ord ip s =
     (case find_addr s ip cs of None \<Rightarrow> s | Some c \<Rightarrow> kickUser ord c s)"

definition adminConsole_ban :: "conn list \<Rightarrow> string list \<Rightarrow> string \<Rightarrow> state \<Rightarrow> state" where
  "adminConsole_ban cs ord ip s =
     (case find_addr s ip cs of None \<Rightarrow> s | Some c \<Rightarrow> banUser ord c s)"

section \<open>Runs of the server\<close>

text \<open>
  What can happen to the server, one operation at a time: a connection is accepted, a
  handler reads a line or fails to read, the router takes a message, the operator kicks
  or bans an address, the network drops a connection. A handler is named by the
  \<open>Client\<close> it allocated (the first connection accepted gets \<open>Client\<close> 1, the next one 2,
  and so on). \<open>run\<close> applies a list of events from left to right.
\<close>

datatype event =
    Accept conn string
  | Line cptr string string
  | ReadErr cptr
  | Router
  | Kick "conn list" "string list" string
  | Ban "conn list" "string list" string
  | NetDown conn

fun step :: "event \<Rightarrow> state \<Rightarrow> state option" where
  "step (Accept c addr) s = Some (snd (handleConnection_start c addr s))"
| "step (Line client message now) s = Some (handleConnection_line message now client s)"
| "step (ReadErr client) s = Some (handleConnection_readerr client s)"
| "step Router s = handleBroadcast s"
| "step (Kick cs ord ip) s = Some (adminConsole_kick cs ord ip s)"
| "step (Ban cs ord ip) s = Some (adminConsole_ban cs ord ip s)"
| "step (NetDown c) s = Some (s\<lparr>down := (down s)(c := True)\<rparr>)"

fun run :: "event list \<Rightarrow> state \<Rightarrow> state option" where
  "run [] s = Some s"
| "run (e # es) s = (case step e s of None \<Rightarrow> None | Some s' \<Rightarrow> run es s')"

section \<open>Predicates and example states used in the statements\<close>


text \<open>One connection (number 10, \<open>Client\<close> 1) accepted and in no room.\<close>

definition st_alone :: state where
  "st_alone = snd (handleConnection_start 10 ''10.0.0.1:4000'' init)"

text \<open>The same session after it has created room \<open>x\<close>.\<close>

definition st_x :: state where
  "st_x = handleCommand ''/create x'' 1 st_alone"

text \<open>Connection 10 (\<open>Client\<close> 1) has created room \<open>lobby\<close>; connection 20
  (\<open>Client\<close> 2) has been accepted and is in no room.\<close>

definition st_guest :: state where
  "st_guest = snd (handleConnection_start 20 ''10.0.0.2:4000''
                     (handleCommand ''/create lobby'' 1 st_alone))"

text \<open>Two sessions in room \<open>lobby\<close>: connection 10 (\<open>Client\<close> 1) created it,
  connection 20 (\<open>Client\<close> 2) joined.\<close>

definition st_lobby :: state where
  "st_lobby = handleCommand ''/join lobby'' 2
                (snd (handleConnection_start 20 ''10.0.0.2:4000''
                   (handleCommand ''/create lobby'' 1 st_alone)))"

text \<open>Connection 20 has created room \<open>x\<close>; the address of connection 10, which is in
  no room, has been banned.\<close>

definition st_banned :: state where
  "st_banned = adminConsole_ban [10, 20] [''x''] ''10.0.0.1:4000''
                 (handleCommand ''/create x'' 2
                    (snd (handleConnection_start 20 ''10.0.0.2:4000'' st_alone)))"

text \<open>
  A run after which \<open>Client\<close> 1 is in the member lists of two rooms. The line
  \<open>/create  x\<close> has two spaces, so its second piece is the empty string: the room with
  the empty name is created and joined, and the \<open>room\<close> field, set to that name, reads
  as "in no room". The later \<open>/join y\<close> therefore leaves no room before entering \<open>y\<close>.
\<close>

definition two_rooms :: "event list" where
  "two_rooms =
     [Accept 10 ''10.0.0.1:4000'', Accept 20 ''10.0.0.2:4000'',
      Line 1 ''/create  x'' ''3:01PM'', Router,
      Line 2 ''/create y'' ''3:02PM'', Router,
      Line 1 ''/join y'' ''3:03PM'', Router]"

section \<open>Facts about the library operations\<close>

lemma Split_not_Nil: "Split m \<noteq> []"
  by (induction m) (auto split: list.splits)







section \<open>Failed joins and creates\<close>

text \<open>
  Claim C6. A \<open>/join\<close> that names a room which does not exist, and a \<open>/create\<close> that
  names a room which exists, change nothing in the state of the server: no room is
  created, no member list and no \<open>room\<close> field changes, nothing is sent on the channel.
  The only effect is the error line written to the requester (and not even that when
  its connection can no longer be written to).
\<close>

theorem C6_failed_join_create_change_nothing:
  assumes "Split message = command # roomName # rest"
  shows "(command = ''/join'' \<and> rooms s roomName = None \<longrightarrow>
            (handleCommand message client s)\<lparr>wire := wire s\<rparr> = s \<and>
            wire (handleCommand message client s) =
              (if closed s (conn (heap s client)) \<or> down s (conn (heap s client)) then wire s
               else (wire s)(conn (heap s client) :=
                      wire s (conn (heap s client)) @ [msg_no_room roomName])))
       \<and> (command = ''/create'' \<and> rooms s roomName \<noteq> None \<longrightarrow>
            (handleCommand message client s)\<lparr>wire := wire s\<rparr> = s \<and>
            wire (handleCommand message client s) =
              (if closed s (conn (heap s client)) \<or> down s (conn (heap s client)) then wire s
               else (wire s)(conn (heap s client) :=
                      wire s (conn (heap s client)) @ [msg_room_exists roomName])))"
  using assms by (auto simp: handleCommand_def reply_def conn_Write_def)

theorem C6_witness:
  "Split ''/join nope'' = ''/join'' # ''nope'' # [] \<and> rooms st_alone ''nope'' = None
   \<and> (handleCommand ''/join nope'' 1 st_alone)\<lparr>wire := wire st_alone\<rparr> = st_alone
   \<and> wire (handleCommand ''/join nope'' 1 st_alone) 10 = [msg_no_room ''nope'']
   \<and> Split ''/create x'' = ''/create'' # ''x'' # [] \<and> rooms st_x ''x'' \<noteq> None
   \<and> (handleCommand ''/create x'' 1 st_x)\<lparr>wire := wire st_x\<rparr> = st_x
   \<and> wire (handleCommand ''/create x'' 1 st_x) 10 = wire st_x 10 @ [msg_room_exists ''x'']"
proof -
  have sp: "Split ''/join nope'' = ''/join'' # ''nope'' # []"
           "Split ''/create x'' = ''/create'' # ''x'' # []"
    by simp_all
  have a: "rooms st_alone ''nope'' = None" "conn (heap st_alone 1) = 10"
          "\<not> closed st_alone 10" "\<not> down st_alone 10" "wire st_alone 10 = []"
    by code_simp+
  have x: "rooms st_x ''x'' \<noteq> None" "conn (heap st_x 1) = 10"
          "\<not> closed st_x 10" "\<not> down st_x 10"
    by code_simp+
  show ?thesis
    using C6_failed_join_create_change_nothing [OF sp(1), where s = st_alone and client = 1]
          C6_failed_join_create_change_nothing [OF sp(2), where s = st_x and client = 1] sp a x
    by simp
qed

section \<open>The room name of a command\<close>










section \<open>The rendered chat line\<close>

text \<open>
  Claim C3, as amended. A line that is not a command, from a session whose \<open>room\<close> is
  set, is sent on the channel as: the room in square brackets, a space, the time, the
  three bytes space, hyphen, space, the display name, a colon and a space, the text, a
  newline. Nothing else in the state changes.
\<close>

theorem C3_chat_line_rendering:
  assumes "\<not> HasPrefix_slash message" and "room (heap s client) \<noteq> []"
  shows "handleConnection_line message now client s =
           s\<lparr>broadcast := broadcast s @
               [''['' @ room (heap s client) @ ''] '' @ now @ '' - '' @
                username (heap s client) @ '': '' @ message @ ''\<newline>'']\<rparr>"
  using assms by (simp add: handleConnection_line_def send_def chat_line_def)

theorem C3_witness:
  "\<not> HasPrefix_slash ''hi'' \<and> room (heap st_x 1) \<noteq> []
   \<and> handleConnection_line ''hi'' ''3:04PM'' 1 st_x =
       st_x\<lparr>broadcast := broadcast st_x @ [''[x] 3:04PM - Anonymous: hi\<newline>'']\<rparr>"
proof -
  have h: "\<not> HasPrefix_slash ''hi''"
    by (simp add: HasPrefix_slash_def)
  have r: "room (heap st_x 1) = ''x''" "username (heap st_x 1) = ''Anonymous''"
    by code_simp+
  have n: "room (heap st_x 1) \<noteq> []"
    using r by simp
  show ?thesis
    using C3_chat_line_rendering [OF h n, where now = "''3:04PM''"] h r by simp
qed

text \<open>The claim as the specification words it, without the hyphen, fails: the session
  of the example above sends the text \<open>hi\<close> at 3:04PM.\<close>

theorem C3_counterexample:
  "map_option broadcast
     (run [Accept 10 ''10.0.0.1:4000'', Line 1 ''/create x'' ''3:03PM'', Router,
           Line 1 ''hi'' ''3:04PM''] init)
     = Some [''[x] 3:04PM - Anonymous: hi\<newline>'']
   \<and> ''[x] 3:04PM - Anonymous: hi\<newline>'' \<noteq> ''[x] 3:04PM Anonymous: hi\<newline>''"
  by code_simp


section \<open>Fan-out of a chat line\<close>

lemma SplitN_at_space:
  "CHR '' '' \<notin> set a \<Longrightarrow> SplitN (a @ CHR '' '' # m) (Suc (Suc n)) = a # SplitN m (Suc n)"
  by (induction a) auto

text \<open>When no write fails, the loop writes the message once for every slot it visits
  and changes nothing else.\<close>

lemma fanout_no_failure:
  assumes "i + k \<le> length (arrays s a)"
      and "\<forall>p \<in> set (take k (drop i (arrays s a))).
             \<not> closed s (conn (heap s p)) \<and> \<not> down s (conn (heap s p))"
  shows "fanout r m a i k s =
           Some (s\<lparr>wire := \<lambda>c. wire s c @
                   replicate (length (filter (\<lambda>p. conn (heap s p) = c)
                                        (take k (drop i (arrays s a))))) m\<rparr>)"
  using assms
proof (induction k arbitrary: i s)
  case 0
  then show ?case by simp
next
  case (Suc k)
  let ?xs = "arrays s a"
  let ?p = "?xs ! i"
  let ?c = "conn (heap s ?p)"
  let ?s1 = "s\<lparr>wire := (wire s)(?c := wire s ?c @ [m])\<rparr>"
  from Suc.prems(1) have i: "i < length ?xs"
    by simp
  then have dr: "take (Suc k) (drop i ?xs) = ?p # take k (drop (Suc i) ?xs)"
    by (simp add: Cons_nth_drop_Suc [symmetric])
  with Suc.prems(2) have ok: "\<not> closed s ?c" "\<not> down s ?c"
    and rest: "\<forall>p \<in> set (take k (drop (Suc i) ?xs)).
                 \<not> closed s (conn (heap s p)) \<and> \<not> down s (conn (heap s p))"
    by simp_all
  have w: "conn_Write ?c m s = (False, ?s1)"
    using ok by (simp add: conn_Write_def)
  have st: "fanout r m a i (Suc k) s = fanout r m a (Suc i) k ?s1"
    using i w by (simp add: Let_def)
  have ih: "fanout r m a (Suc i) k ?s1 =
      Some (?s1\<lparr>wire := \<lambda>c. wire ?s1 c @
              replicate (length (filter (\<lambda>p. conn (heap ?s1 p) = c)
                                   (take k (drop (Suc i) (arrays ?s1 a))))) m\<rparr>)"
    using Suc.prems(1) rest by (intro Suc.IH) simp_all
  have "(\<lambda>c. wire ?s1 c @
              replicate (length (filter (\<lambda>p. conn (heap ?s1 p) = c)
                                   (take k (drop (Suc i) (arrays ?s1 a))))) m)
        = (\<lambda>c. wire s c @
              replicate (length (filter (\<lambda>p. conn (heap s p) = c)
                                   (take (Suc k) (drop i ?xs)))) m)"
    by (rule ext) (simp add: dr replicate_app_Cons_same)
  with st ih show ?case
    by simp
qed

lemma index_of_Some: "index_of p xs = Some j \<Longrightarrow> j < length xs \<and> xs ! j = p"
  by (induction xs arbitrary: j) (auto split: if_splits)

text \<open>Taking slot \<open>j\<close> out of the first \<open>l\<close> slots of an array, in place: the slots
  behind \<open>j\<close> move down by one, slot \<open>l - 1\<close> and the ones behind it stay.\<close>

lemma shift_slots:
  assumes "j < l" and "l \<le> n" and "n \<le> length A"
  shows "length (take j A @ drop (Suc j) (take l A) @ drop (l - 1) A) = length A"
    and "set (take n (take j A @ drop (Suc j) (take l A) @ drop (l - 1) A)) \<subseteq> set (take n A)"
proof -
  define A' where "A' = take j A @ drop (Suc j) (take l A) @ drop (l - 1) A"
  have len: "length A' = length A"
    using assms by (simp add: A'_def)
  have n1: "A' ! p = A ! p" if "p < j" for p
    using that assms by (simp add: A'_def nth_append)
  have n2: "A' ! p = A ! Suc p" if "j \<le> p" "p < l - 1" for p
  proof -
    have "p - j < l - Suc j" "Suc (j + (p - j)) = Suc p" "Suc p < l"
      using that assms by simp_all
    then show ?thesis
      using that assms by (simp add: A'_def nth_append)
  qed
  have n3: "A' ! p = A ! p" if "l - 1 \<le> p" "p < length A" for p
  proof -
    have "\<not> p < j" "\<not> p - j < l - Suc j" "l - 1 + (p - j - (l - Suc j)) = p"
      using that assms by simp_all
    then show ?thesis
      using that assms by (simp add: A'_def nth_append)
  qed
  have "set (take n A') \<subseteq> set (take n A)"
  proof
    fix x
    assume "x \<in> set (take n A')"
    then obtain p where "p < length (take n A')" "take n A' ! p = x"
      by (metis in_set_conv_nth)
    then have p: "p < n" "A' ! p = x"
      by simp_all
    have "\<exists>q < n. A ! q = x"
    proof (cases "\<not> p < j \<and> p < l - 1")
      case True
      then have "A ! Suc p = x"
        using p n2 [of p] by simp
      moreover have "Suc p < n"
        using True assms by arith
      ultimately show ?thesis by blast
    next
      case False
      then have "A ! p = x"
        using p n1 [of p] n3 [of p] assms by (cases "p < j") simp_all
      with p show ?thesis by blast
    qed
    then obtain q where "q < n" "A ! q = x"
      by blast
    then have "q < length (take n A)" "take n A ! q = x"
      using assms(3) by simp_all
    then show "x \<in> set (take n A)"
      by (metis in_set_conv_nth)
  qed
  with len show "length (take j A @ drop (Suc j) (take l A) @ drop (l - 1) A) = length A"
    and "set (take n (take j A @ drop (Suc j) (take l A) @ drop (l - 1) A)) \<subseteq> set (take n A)"
    by (simp_all add: A'_def)
qed

text \<open>\<open>removeClient\<close> works in the array of the slice it is given, and what the first
  \<open>n\<close> slots hold afterwards they held before.\<close>

lemma removeClient_in_place:
  assumes "len h \<le> cap h" and "len h \<le> n" and "n \<le> length (arrays s (arr h))"
  shows "\<exists>h' A'. removeClient h client s = (h', s\<lparr>arrays := (arrays s)(arr h := A')\<rparr>)
           \<and> arr h' = arr h \<and> len h' \<le> cap h' \<and> len h' \<le> n
           \<and> length A' = length (arrays s (arr h))
           \<and> set (take n A') \<subseteq> set (take n (arrays s (arr h)))"
proof (cases "index_of client (elems s h)")
  case None
  have "s = s\<lparr>arrays := (arrays s)(arr h := arrays s (arr h))\<rparr>"
    by simp
  then have "removeClient h client s = (h, s\<lparr>arrays := (arrays s)(arr h := arrays s (arr h))\<rparr>)"
    using None by (simp add: removeClient_def)
  then show ?thesis
    using assms by blast
next
  case (Some j)
  let ?A = "arrays s (arr h)"
  let ?A' = "take j ?A @ drop (Suc j) (take (len h) ?A) @ drop (len h - 1) ?A"
  have l: "length (elems s h) = len h"
    using assms by (simp add: elems_def)
  have j: "j < len h"
    using index_of_Some [OF Some] l by simp
  have n: "j + (len h - Suc j) = len h - 1"
    using j by simp
  have "removeClient h client s =
          (h\<lparr>len := len h - 1\<rparr>,
           s\<lparr>arrays := (arrays s)(arr h :=
               take j ?A @ drop (Suc j) (elems s h) @ drop (len h - 1) ?A)\<rparr>)"
    using Some j assms(1) by (simp add: removeClient_def go_append_def Let_def l n)
  then have "removeClient h client s =
          (h\<lparr>len := len h - 1\<rparr>, s\<lparr>arrays := (arrays s)(arr h := ?A')\<rparr>)"
    by (simp add: elems_def)
  moreover have "length ?A' = length ?A" "set (take n ?A') \<subseteq> set (take n ?A)"
    using shift_slots [OF j assms(2,3)] by simp_all
  moreover have "len (h\<lparr>len := len h - 1\<rparr>) \<le> cap (h\<lparr>len := len h - 1\<rparr>)"
                "len (h\<lparr>len := len h - 1\<rparr>) \<le> n" "arr (h\<lparr>len := len h - 1\<rparr>) = arr h"
    using assms by simp_all
  ultimately show ?thesis
    by blast
qed

text \<open>Whether writes fail or not, the loop ends, and it writes only to connections of
  pointers that the first slots of the array held when it started.\<close>

lemma fanout_members_only:
  assumes "rooms s r = Some h" and "arr h = a" and "len h \<le> cap h" and "len h \<le> i + k"
      and "i + k \<le> length (arrays s a)"
      and "set (take (i + k) (arrays s a)) \<subseteq> M"
  shows "\<exists>s'. fanout r m a i k s = Some s' \<and> heap s' = heap s
           \<and> (\<forall>c. c \<notin> (\<lambda>p. conn (heap s p)) ` M \<longrightarrow> wire s' c = wire s c)"
  using assms
proof (induction k arbitrary: i s h)
  case 0
  then show ?case by simp
next
  case (Suc k)
  let ?A = "arrays s a"
  let ?p = "?A ! i"
  let ?c = "conn (heap s ?p)"
  have i: "i < length ?A"
    using Suc.prems(5) by simp
  have "?p \<in> set (take (i + Suc k) ?A)"
    using i by (auto simp: in_set_conv_nth)
  then have pm: "?p \<in> M"
    using Suc.prems(6) by blast
  show ?case
  proof (cases "closed s ?c \<or> down s ?c")
    case False
    let ?s1 = "s\<lparr>wire := (wire s)(?c := wire s ?c @ [m])\<rparr>"
    have st: "fanout r m a i (Suc k) s = fanout r m a (Suc i) k ?s1"
      using i False by (simp add: Let_def conn_Write_def)
    have "\<exists>s'. fanout r m a (Suc i) k ?s1 = Some s' \<and> heap s' = heap ?s1
           \<and> (\<forall>c. c \<notin> (\<lambda>p. conn (heap ?s1 p)) ` M \<longrightarrow> wire s' c = wire ?s1 c)"
      using Suc.prems by (intro Suc.IH [where h = h]) simp_all
    then obtain s' where s': "fanout r m a (Suc i) k ?s1 = Some s'" "heap s' = heap s"
        "\<forall>c. c \<notin> (\<lambda>p. conn (heap s p)) ` M \<longrightarrow> wire s' c = wire ?s1 c"
      by auto
    have "\<forall>c. c \<notin> (\<lambda>p. conn (heap s p)) ` M \<longrightarrow> wire s' c = wire s c"
      using s'(3) pm by auto
    with st s' show ?thesis by simp
  next
    case True
    let ?s3 = "s\<lparr>closed := (closed s)(?c := True), clients := (clients s)(?c := None)\<rparr>"
    have h3: "rooms_at ?s3 r = h" "arrays ?s3 (arr h) = ?A"
      using Suc.prems(1,2) by (simp_all add: rooms_at_def)
    obtain h' A' where rc: "removeClient h ?p ?s3 = (h', ?s3\<lparr>arrays := (arrays ?s3)(arr h := A')\<rparr>)"
        and h': "arr h' = arr h" "len h' \<le> cap h'" "len h' \<le> i + Suc k"
        and A': "length A' = length ?A" "set (take (i + Suc k) A') \<subseteq> set (take (i + Suc k) ?A)"
      using removeClient_in_place [of h "i + Suc k" ?s3 ?p] Suc.prems(2,3,4,5) h3(2)
      by auto
    let ?s5 = "?s3\<lparr>arrays := (arrays ?s3)(arr h := A'), rooms := (rooms s)(r \<mapsto> h')\<rparr>"
    have st: "fanout r m a i (Suc k) s = fanout r m a (Suc i) k ?s5"
      using i True rc h3(1) by (simp add: Let_def conn_Write_def conn_Close_def)
    have "\<exists>s'. fanout r m a (Suc i) k ?s5 = Some s' \<and> heap s' = heap ?s5
           \<and> (\<forall>c. c \<notin> (\<lambda>p. conn (heap ?s5 p)) ` M \<longrightarrow> wire s' c = wire ?s5 c)"
      using Suc.prems h' A' by (intro Suc.IH [where h = h']) auto
    with st show ?thesis by simp
  qed
qed

text \<open>The router reads the room of a message off its first piece; for a line that
  starts with the bracketed name of a room without spaces, that is the room.\<close>

lemma deliver_bracketed:
  assumes "CHR '' '' \<notin> set r"
  shows "deliver (''['' @ r @ ''] '' @ rest) s =
           fanout r (''['' @ r @ ''] '' @ rest) (arr (rooms_at s r)) 0 (len (rooms_at s r)) s"
proof -
  have "''['' @ r @ ''] '' @ rest = (''['' @ r @ '']'') @ CHR '' '' # rest"
    by simp
  moreover have "CHR '' '' \<notin> set (''['' @ r @ '']'')"
    using assms by simp
  ultimately have "SplitN (''['' @ r @ ''] '' @ rest) (Suc (Suc (Suc 0))) =
      (''['' @ r @ '']'') # SplitN rest (Suc (Suc 0))"
    using SplitN_at_space by metis
  then show ?thesis
    by (simp add: deliver_def numeral_3_eq_3 Let_def)
qed

text \<open>
  Claim C1, as amended. When the router delivers a chat line rendered for room \<open>r\<close>, it
  writes to no connection but those of the members of \<open>r\<close>, whether writes fail or not.
  When no write fails, the line is appended to the connection of every member of \<open>r\<close>,
  once for each slot the member holds in the list, and the state is otherwise
  unchanged: the sender, being a member, receives its own line.
\<close>

theorem C1_chat_line_reaches_all_members:
  assumes "CHR '' '' \<notin> set r"
      and "len (rooms_at s r) \<le> cap (rooms_at s r)"
      and "len (rooms_at s r) \<le> length (arrays s (arr (rooms_at s r)))"
  shows "(\<exists>s'. deliver (chat_line r now u line) s = Some s' \<and>
            (\<forall>c. c \<notin> (\<lambda>p. conn (heap s p)) ` set (elems s (rooms_at s r)) \<longrightarrow>
                 wire s' c = wire s c))
       \<and> ((\<forall>p \<in> set (elems s (rooms_at s r)).
              \<not> closed s (conn (heap s p)) \<and> \<not> down s (conn (heap s p))) \<longrightarrow>
          deliver (chat_line r now u line) s =
            Some (s\<lparr>wire := \<lambda>c. wire s c @
                    replicate (length (filter (\<lambda>p. conn (heap s p) = c)
                                         (elems s (rooms_at s r))))
                      (chat_line r now u line)\<rparr>))"
proof -
  let ?h = "rooms_at s r"
  let ?m = "chat_line r now u line"
  have "?m = ''['' @ r @ ''] '' @ (now @ '' - '' @ u @ '': '' @ line @ ''\<newline>'')"
    by (simp add: chat_line_def)
  then have d: "deliver ?m s = fanout r ?m (arr ?h) 0 (len ?h) s"
    using deliver_bracketed [OF assms(1)] by metis
  have only: "\<exists>s'. deliver ?m s = Some s' \<and>
            (\<forall>c. c \<notin> (\<lambda>p. conn (heap s p)) ` set (elems s ?h) \<longrightarrow> wire s' c = wire s c)"
  proof (cases "rooms s r")
    case None
    then show ?thesis
      by (simp add: d rooms_at_def nil_slice_def)
  next
    case (Some h)
    then have h: "?h = h"
      by (simp add: rooms_at_def)
    have "\<exists>s'. fanout r ?m (arr h) 0 (len h) s = Some s' \<and> heap s' = heap s
           \<and> (\<forall>c. c \<notin> (\<lambda>p. conn (heap s p)) ` set (elems s h) \<longrightarrow> wire s' c = wire s c)"
      using Some assms(2,3)
      by (intro fanout_members_only [where h = h and i = 0 and k = "len h"])
         (simp_all add: h elems_def)
    then show ?thesis
      by (auto simp: d h)
  qed
  have all: "deliver ?m s = Some (s\<lparr>wire := \<lambda>c. wire s c @
                    replicate (length (filter (\<lambda>p. conn (heap s p) = c) (elems s ?h))) ?m\<rparr>)"
    if ok: "\<forall>p \<in> set (elems s ?h).
              \<not> closed s (conn (heap s p)) \<and> \<not> down s (conn (heap s p))"
  proof -
    have "fanout r ?m (arr ?h) 0 (len ?h) s = Some (s\<lparr>wire := \<lambda>c. wire s c @
                   replicate (length (filter (\<lambda>p. conn (heap s p) = c)
                      (take (len ?h) (drop 0 (arrays s (arr ?h)))))) ?m\<rparr>)"
      using assms(3) ok by (intro fanout_no_failure) (simp_all add: elems_def)
    then show ?thesis
      by (simp add: d elems_def)
  qed
  from only all show ?thesis
    by blast
qed

theorem C1_witness:
  "CHR '' '' \<notin> set ''lobby''
   \<and> len (rooms_at st_lobby ''lobby'') \<le> cap (rooms_at st_lobby ''lobby'')
   \<and> len (rooms_at st_lobby ''lobby'')
        \<le> length (arrays st_lobby (arr (rooms_at st_lobby ''lobby'')))
   \<and> elems st_lobby (rooms_at st_lobby ''lobby'') = [1, 2]
   \<and> conn (heap st_lobby 1) = 10 \<and> conn (heap st_lobby 2) = 20
   \<and> \<not> closed st_lobby 10 \<and> \<not> down st_lobby 10
   \<and> \<not> closed st_lobby 20 \<and> \<not> down st_lobby 20
   \<and> map_option (\<lambda>t. (wire t 10, wire t 20, wire t 30))
        (deliver (chat_line ''lobby'' ''3:04PM'' ''Anonymous'' ''hi'') st_lobby)
       = Some (wire st_lobby 10 @ [chat_line ''lobby'' ''3:04PM'' ''Anonymous'' ''hi''],
               wire st_lobby 20 @ [chat_line ''lobby'' ''3:04PM'' ''Anonymous'' ''hi''],
               wire st_lobby 30)"
proof -
  have h1: "CHR '' '' \<notin> set ''lobby''"
    by simp
  have h2: "len (rooms_at st_lobby ''lobby'') \<le> cap (rooms_at st_lobby ''lobby'')"
           "len (rooms_at st_lobby ''lobby'')
              \<le> length (arrays st_lobby (arr (rooms_at st_lobby ''lobby'')))"
    by code_simp+
  have h3: "\<forall>p \<in> set (elems st_lobby (rooms_at st_lobby ''lobby'')).
         \<not> closed st_lobby (conn (heap st_lobby p)) \<and> \<not> down st_lobby (conn (heap st_lobby p))"
    by code_simp
  have e: "elems st_lobby (rooms_at st_lobby ''lobby'') = [1, 2]"
          "conn (heap st_lobby 1) = 10" "conn (heap st_lobby 2) = 20"
          "\<not> closed st_lobby 10" "\<not> down st_lobby 10"
          "\<not> closed st_lobby 20" "\<not> down st_lobby 20"
    by code_simp+
  note t = C1_chat_line_reaches_all_members
            [OF h1 h2, where now = "''3:04PM''" and u = "''Anonymous''" and line = "''hi''",
             THEN conjunct2, THEN mp, OF h3]
  show ?thesis
    using t h1 h2 e by simp
qed

text \<open>The claim as stated fails: connection 10 creates \<open>lobby\<close>, connection 20 joins,
  connection 10 says \<open>hi\<close>, and the router writes the line to connection 10 as well.\<close>

theorem C1_counterexample:
  "map_option (\<lambda>st. count_list (wire st 10) ''[lobby] 3:04PM - Anonymous: hi\<newline>'')
     (run [Accept 10 ''10.0.0.1:4000'', Accept 20 ''10.0.0.2:4000'',
           Line 1 ''/create lobby'' ''3:02PM'', Router,
           Line 2 ''/join lobby'' ''3:03PM'', Router,
           Line 1 ''hi'' ''3:04PM'', Router] init)
     = Some 1"
  by code_simp

section \<open>Write failures during fan-out\<close>

text \<open>
  Claim C7, at a failing input. Connections 10, 20 and 30 are in room \<open>x\<close>, in this
  order; the network drops connection 10; connection 30 says \<open>hi\<close>. The router fails
  to write to connection 10, closes it and removes it from the registry and from the
  room, as the claim says. But the removal moves the later members one slot down in the
  array the loop is running over, so the loop, going on to slot 1, passes over
  connection 20, which never gets the line, and reads connection 30 twice, which gets
  it twice.
\<close>

theorem C7_member_after_failed_one_is_skipped:
  "map_option
     (\<lambda>st. (closed st 10, clients st 10, map_option (elems st) (rooms st ''x''),
            count_list (wire st 20) ''[x] 3:04PM - Anonymous: hi\<newline>'',
            count_list (wire st 30) ''[x] 3:04PM - Anonymous: hi\<newline>''))
     (run [Accept 10 ''10.0.0.1:4000'', Accept 20 ''10.0.0.2:4000'',
           Accept 30 ''10.0.0.3:4000'',
           Line 1 ''/create x'' ''3:01PM'', Router,
           Line 2 ''/join x'' ''3:02PM'', Router,
           Line 3 ''/join x'' ''3:03PM'', Router,
           NetDown 10, Line 3 ''hi'' ''3:04PM'', Router] init)
     = Some (True, None, Some [2, 3], 0, 2)"
  by code_simp

section \<open>Banned addresses\<close>

lemma reply_is_wire_update: "reply client b s = s\<lparr>wire := wire (reply client b s)\<rparr>"
  by (simp add: reply_def conn_Write_def)

lemma handleCommand_banned:
  assumes "banned s (conn (heap s client))"
  shows "handleCommand message client s \<in> range (\<lambda>b. reply client b s)"
proof -
  obtain command args where sp: "Split message = command # args"
    using Split_not_Nil [of message] by (cases "Split message") auto
  show ?thesis
    using assms by (cases args) (simp_all add: handleCommand_def sp)
qed

lemma banned_retries:
  "banned s (conn (heap s client)) \<Longrightarrow>
     \<exists>W. foldl (\<lambda>t m. handleCommand m client t) s ms = s\<lparr>wire := W\<rparr>"
proof (induction ms arbitrary: s)
  case Nil
  have "s = s\<lparr>wire := wire s\<rparr>" by simp
  then show ?case by (metis foldl_Nil)
next
  case (Cons m ms)
  obtain b where b: "handleCommand m client s = reply client b s"
    using handleCommand_banned [OF Cons.prems] by blast
  define W1 where "W1 = wire (reply client b s)"
  have s1: "handleCommand m client s = s\<lparr>wire := W1\<rparr>"
    unfolding W1_def b by (rule reply_is_wire_update)
  have "banned (s\<lparr>wire := W1\<rparr>) (conn (heap (s\<lparr>wire := W1\<rparr>) client))"
    using Cons.prems by (simp add: banned_def)
  from Cons.IH [OF this] obtain W where
    "foldl (\<lambda>t m. handleCommand m client t) (s\<lparr>wire := W1\<rparr>) ms = s\<lparr>wire := W1\<rparr>\<lparr>wire := W\<rparr>"
    by blast
  then have "foldl (\<lambda>t m. handleCommand m client t) s (m # ms) = s\<lparr>wire := W\<rparr>"
    by (simp add: s1)
  then show ?case by blast
qed

text \<open>
  Claim C2, as amended. For a session whose address is in the ban list, every \<open>/join\<close>
  and \<open>/create\<close> fails: the reply is the room-not-found line when a \<open>/join\<close> names no
  existing room, the room-exists line when a \<open>/create\<close> names an existing one, and the
  banned line otherwise. Whatever commands the session sends, and however many, the
  state of the server stays as it was apart from the replies written to the session.
\<close>

theorem C2_banned_session_cannot_join_or_create:
  assumes "banned s (conn (heap s client))"
  shows "(Split message = command # roomName # rest \<and>
            (command = ''/join'' \<or> command = ''/create'') \<longrightarrow>
          handleCommand message client s =
            reply client
              (if command = ''/join'' \<and> rooms s roomName = None then msg_no_room roomName
               else if command = ''/create'' \<and> rooms s roomName \<noteq> None
                    then msg_room_exists roomName
               else msg_banned) s)
       \<and> (foldl (\<lambda>t m. handleCommand m client t) s ms)\<lparr>wire := wire s\<rparr> = s"
proof -
  have "Split message = command # roomName # rest \<and>
            (command = ''/join'' \<or> command = ''/create'') \<longrightarrow>
          handleCommand message client s =
            reply client
              (if command = ''/join'' \<and> rooms s roomName = None then msg_no_room roomName
               else if command = ''/create'' \<and> rooms s roomName \<noteq> None
                    then msg_room_exists roomName
               else msg_banned) s"
    using assms by (auto simp: handleCommand_def)
  moreover obtain W where "foldl (\<lambda>t m. handleCommand m client t) s ms = s\<lparr>wire := W\<rparr>"
    using banned_retries [OF assms] by blast
  then have "(foldl (\<lambda>t m. handleCommand m client t) s ms)\<lparr>wire := wire s\<rparr> = s"
    by simp
  ultimately show ?thesis by blast
qed

theorem C2_witness:
  "banned st_banned (conn (heap st_banned 1))
   \<and> Split ''/join x'' = ''/join'' # ''x'' # []
   \<and> rooms st_banned ''x'' \<noteq> None
   \<and> wire (handleCommand ''/join x'' 1 st_banned) 10 = [msg_banned]
   \<and> (foldl (\<lambda>t m. handleCommand m 1 t) st_banned [''/join x'', ''/create y'', ''/join x''])
        \<lparr>wire := wire st_banned\<rparr> = st_banned"
proof -
  have b: "banned st_banned (conn (heap st_banned 1))"
    by code_simp
  have sp: "Split ''/join x'' = ''/join'' # ''x'' # []"
    by simp
  have f: "rooms st_banned ''x'' \<noteq> None" "conn (heap st_banned 1) = 10"
          "\<not> closed st_banned 10" "\<not> down st_banned 10" "wire st_banned 10 = []"
    by code_simp+
  note t = C2_banned_session_cannot_join_or_create
             [OF b, where message = "''/join x''" and command = "''/join''"
                and roomName = "''x''" and rest = "[]"
                and ms = "[''/join x'', ''/create y'', ''/join x'']"]
  from t [THEN conjunct1] sp f
  have "handleCommand ''/join x'' 1 st_banned = reply 1 msg_banned st_banned"
    by simp
  then have w: "wire (handleCommand ''/join x'' 1 st_banned) 10 = [msg_banned]"
    using f by (simp add: reply_def conn_Write_def)
  from b sp f(1) w t [THEN conjunct2] show ?thesis
    by blast
qed

text \<open>The claim as stated fails: a session whose address has been banned asks to join
  a room that does not exist, and is told that the room does not exist, not that it is
  banned.\<close>

theorem C2_counterexample:
  "map_option (\<lambda>st. (bannedUsers st ''10.0.0.1:4000'' \<noteq> None, wire st 10))
     (run [Accept 10 ''10.0.0.1:4000'', Ban [10] [] ''10.0.0.1:4000'',
           Line 1 ''/join nope'' ''3:04PM''] init)
     = Some (True, [msg_no_room ''nope''])
   \<and> msg_no_room ''nope'' \<noteq> msg_banned"
  by code_simp

section \<open>The registry\<close>

text \<open>
  Claim C5, at a failing input. The address of connection 10 is banned, connection 10
  goes away, and connection 11 arrives from the same address. It is registered, found
  banned and closed, and the handler returns without deleting the entry: the registry
  holds a closed connection.
\<close>

theorem C5_refused_connection_stays_registered:
  "map_option (\<lambda>st. (clients st 11, closed st 11))
     (run [Accept 10 ''10.0.0.1:4000'', Ban [10] [] ''10.0.0.1:4000'', ReadErr 1,
           Accept 11 ''10.0.0.1:4000''] init)
     = Some (Some 2, True)"
  by code_simp

section \<open>Kick and ban\<close>

lemma find_conn_Some:
  "find_conn s c ps = Some i \<Longrightarrow> i < length ps \<and> conn (heap s (ps ! i)) = c"
  by (induction ps arbitrary: i) (auto split: if_splits)

lemma kickUser_skip:
  "\<forall>r' \<in> set pre. find_conn s c (elems s (rooms_at s r')) = None \<Longrightarrow>
     kickUser (pre @ rs) c s = kickUser rs c s"
  by (induction pre) (simp_all add: Let_def)

lemma kickUser_absent:
  assumes "\<forall>r' \<in> set ord. find_conn s c (elems s (rooms_at s r')) = None"
  shows "kickUser ord c s = s"
  using kickUser_skip [OF assms, of "[]"] by simp

lemma find_conn_heap:
  "\<forall>p. conn (heap s' p) = conn (heap s p) \<Longrightarrow> find_conn s' c ps = find_conn s c ps"
  by (induction ps) simp_all

lemma find_conn_append_None:
  "find_conn s c xs = None \<Longrightarrow> find_conn s c ys = None \<Longrightarrow> find_conn s c (xs @ ys) = None"
  by (induction xs) (auto split: if_splits)

lemma find_conn_before:
  "find_conn s c ps = Some i \<Longrightarrow> find_conn s c (take i ps) = None"
proof (induction ps arbitrary: i)
  case Nil
  then show ?case by simp
next
  case (Cons p ps)
  then show ?case
    by (cases i) (auto split: if_splits)
qed

text \<open>The state after \<open>kickUser\<close> has found the connection in the room it visits.\<close>

lemma kickUser_here:
  assumes r: "rooms s r = Some sl"
      and wf: "len sl \<le> cap sl" "len sl \<le> length (arrays s (arr sl))"
      and f: "find_conn s c (elems s sl) = Some i"
      and cr: "room (heap s (elems s sl ! i)) = r"
  shows "kickUser (r # rs) c s =
           s\<lparr>rooms := (rooms s)(r \<mapsto> sl\<lparr>len := len sl - 1\<rparr>),
             heap := (heap s)(elems s sl ! i := (heap s (elems s sl ! i))\<lparr>room := []\<rparr>),
             arrays := (arrays s)(arr sl :=
                 take i (elems s sl) @ drop (Suc i) (elems s sl)
                   @ drop (len sl - 1) (arrays s (arr sl))),
             wire := (if closed s c \<or> down s c then wire s
                      else (wire s)(c := wire s c @ [msg_kicked]))\<rparr>"
proof -
  have l: "length (elems s sl) = len sl"
    using wf(2) by (simp add: elems_def)
  have i: "i < len sl"
    using find_conn_Some [OF f] l by simp
  have t: "take i (arrays s (arr sl)) = take i (elems s sl)"
    using i by (simp add: elems_def min_def)
  have n: "i + (len sl - Suc i) = len sl - 1"
    using i by simp
  have g: "go_append (sl\<lparr>len := i\<rparr>) (drop (Suc i) (elems s sl)) s =
      (sl\<lparr>len := len sl - 1\<rparr>,
       s\<lparr>arrays := (arrays s)(arr sl :=
           take i (elems s sl) @ drop (Suc i) (elems s sl)
             @ drop (len sl - 1) (arrays s (arr sl)))\<rparr>)"
    using i wf(1) by (simp add: go_append_def Let_def l n t)
  show ?thesis
    using r f cr g by (simp add: rooms_at_def Let_def conn_Write_def)
qed

lemma elems_prefix:
  "arr sl' = a \<Longrightarrow> len sl' = length xs \<Longrightarrow> arrays s' a = xs @ ys \<Longrightarrow> elems s' sl' = xs"
  by (simp add: elems_def)

lemma remove_slot_distinct:
  assumes "distinct xs" and "i < length xs"
  shows "xs ! i \<notin> set (take i xs @ drop (Suc i) xs)"
proof -
  have "xs = take i xs @ xs ! i # drop (Suc i) xs"
    using assms(2) by (rule id_take_nth_drop)
  then have "distinct (take i xs @ xs ! i # drop (Suc i) xs)"
    using assms(1) by simp
  then show ?thesis
    by auto
qed

text \<open>
  Claim C4, as amended. Let a connection that can be written to hold slot \<open>i\<close> of the
  member list of room \<open>r\<close>, let the \<open>room\<close> field of its session name \<open>r\<close>, and let it be
  in no other room that \<open>kickUser\<close> visits. Then \<open>kickUser\<close> takes slot \<open>i\<close> out of the
  list (so the session is no member any more, the list having no duplicates), clears
  the \<open>room\<close> field and writes the kicked notice to the connection. It sends nothing on
  the channel, closes nothing and leaves the registry alone; a line of text that the
  session sends afterwards is answered with the instruction to join a room first.
\<close>

theorem C4_kick_removes_member_keeps_connection:
  assumes r: "rooms s r = Some sl"
      and wf: "len sl \<le> cap sl" "len sl \<le> length (arrays s (arr sl))"
      and f: "find_conn s c (elems s sl) = Some i"
      and cr: "room (heap s (elems s sl ! i)) = r"
      and ord: "r \<in> set ord"
               "\<forall>r' \<in> set ord. r' \<noteq> r \<longrightarrow> find_conn s c (elems s (rooms_at s r')) = None"
      and w: "\<not> closed s c" "\<not> down s c"
  shows "elems (kickUser ord c s) (rooms_at (kickUser ord c s) r)
           = take i (elems s sl) @ drop (Suc i) (elems s sl)
       \<and> (distinct (elems s sl) \<longrightarrow>
            elems s sl ! i \<notin> set (elems (kickUser ord c s) (rooms_at (kickUser ord c s) r)))
       \<and> room (heap (kickUser ord c s) (elems s sl ! i)) = []
       \<and> wire (kickUser ord c s) = (wire s)(c := wire s c @ [msg_kicked])
       \<and> broadcast (kickUser ord c s) = broadcast s
       \<and> closed (kickUser ord c s) = closed s
       \<and> clients (kickUser ord c s) = clients s
       \<and> (\<not> HasPrefix_slash message \<longrightarrow>
            handleConnection_line message now (elems s sl ! i) (kickUser ord c s)
              = reply (elems s sl ! i) msg_must_join (kickUser ord c s))"
proof -
  obtain pre post where sp: "ord = pre @ r # post" and pre: "r \<notin> set pre"
    using split_list_first [OF ord(1)] by blast
  have "\<forall>r' \<in> set pre. find_conn s c (elems s (rooms_at s r')) = None"
    using ord(2) sp pre by auto
  then have "kickUser ord c s = kickUser (r # post) c s"
    unfolding sp by (rule kickUser_skip)
  then have k: "kickUser ord c s =
           s\<lparr>rooms := (rooms s)(r \<mapsto> sl\<lparr>len := len sl - 1\<rparr>),
             heap := (heap s)(elems s sl ! i := (heap s (elems s sl ! i))\<lparr>room := []\<rparr>),
             arrays := (arrays s)(arr sl :=
                 take i (elems s sl) @ drop (Suc i) (elems s sl)
                   @ drop (len sl - 1) (arrays s (arr sl))),
             wire := (wire s)(c := wire s c @ [msg_kicked])\<rparr>"
    using kickUser_here [OF r wf f cr] w by simp
  have l: "length (elems s sl) = len sl"
    using wf(2) by (simp add: elems_def)
  have i: "i < len sl"
    using find_conn_Some [OF f] l by simp
  have e: "elems (kickUser ord c s) (rooms_at (kickUser ord c s) r)
           = take i (elems s sl) @ drop (Suc i) (elems s sl)"
    unfolding k using i l by (intro elems_prefix) (auto simp: rooms_at_def)
  have d: "distinct (elems s sl) \<longrightarrow>
            elems s sl ! i \<notin> set (elems (kickUser ord c s) (rooms_at (kickUser ord c s) r))"
    unfolding e using remove_slot_distinct [of "elems s sl" i] i l by simp
  have m: "\<not> HasPrefix_slash message \<longrightarrow>
            handleConnection_line message now (elems s sl ! i) (kickUser ord c s)
              = reply (elems s sl ! i) msg_must_join (kickUser ord c s)"
    by (simp add: k handleConnection_line_def)
  from e d m show ?thesis
    by (simp add: k)
qed

theorem C4_witness:
  "rooms st_x ''x'' = Some \<lparr>arr = 1, len = 1, cap = 1\<rparr>
   \<and> find_conn st_x 10 (elems st_x \<lparr>arr = 1, len = 1, cap = 1\<rparr>) = Some 0
   \<and> room (heap st_x (elems st_x \<lparr>arr = 1, len = 1, cap = 1\<rparr> ! 0)) = ''x''
   \<and> \<not> closed st_x 10 \<and> \<not> down st_x 10 \<and> \<not> HasPrefix_slash ''hello''
   \<and> distinct (elems st_x \<lparr>arr = 1, len = 1, cap = 1\<rparr>)
   \<and> elems (kickUser [''x''] 10 st_x) (rooms_at (kickUser [''x''] 10 st_x) ''x'') = []
   \<and> room (heap (kickUser [''x''] 10 st_x) 1) = []
   \<and> wire (kickUser [''x''] 10 st_x) 10 = wire st_x 10 @ [msg_kicked]
   \<and> clients (kickUser [''x''] 10 st_x) = clients st_x
   \<and> handleConnection_line ''hello'' ''3:04PM'' 1 (kickUser [''x''] 10 st_x)
        = reply 1 msg_must_join (kickUser [''x''] 10 st_x)"
proof -
  let ?sl = "\<lparr>arr = 1, len = 1, cap = 1\<rparr>"
  have r: "rooms st_x ''x'' = Some ?sl"
    by code_simp
  have wf: "len ?sl \<le> cap ?sl" "len ?sl \<le> length (arrays st_x (arr ?sl))"
    by code_simp+
  have f: "find_conn st_x 10 (elems st_x ?sl) = Some 0"
    by code_simp
  have cr: "room (heap st_x (elems st_x ?sl ! 0)) = ''x''"
    by code_simp
  have ord: "''x'' \<in> set [''x'']"
    "\<forall>r' \<in> set [''x'']. r' \<noteq> ''x'' \<longrightarrow> find_conn st_x 10 (elems st_x (rooms_at st_x r')) = None"
    by simp_all
  have w: "\<not> closed st_x 10" "\<not> down st_x 10"
    by code_simp+
  have h: "\<not> HasPrefix_slash ''hello''"
    by (simp add: HasPrefix_slash_def)
  have e: "elems st_x ?sl = [1]"
    by code_simp
  note t = C4_kick_removes_member_keeps_connection
             [OF r wf f cr ord w, where message = "''hello''" and now = "''3:04PM''"]
  from t r f cr w h e show ?thesis
    by simp
qed

text \<open>The claim as stated fails for a connected session that is in no room: \<open>kickUser\<close>
  looks for the connection in the member lists only, finds nothing, and writes no
  notice.\<close>

theorem C4_counterexample:
  "map_option (\<lambda>st. (clients st 10, closed st 10, wire st 10))
     (run [Accept 10 ''10.0.0.1:4000'', Kick [10] [] ''10.0.0.1:4000''] init)
     = Some (Some 1, False, [])"
  by code_simp

text \<open>
  Where banning twice is the same as banning once. A second \<open>banUser\<close> changes nothing
  when the first one has left the connection in no member list. That is so when the
  connection was in no list before, and when it held one slot of one list, in the room
  its \<open>room\<close> field names, that room having a backing array of its own.
\<close>

lemma banUser_twice_no_membership:
  assumes "\<forall>r'. find_conn s c (elems s (rooms_at s r')) = None"
  shows "banUser ord' c (banUser ord c s) = banUser ord c s"
proof -
  define s1 where
    "s1 = s\<lparr>bannedUsers := (bannedUsers s)(RemoteAddr s c \<mapsto> \<lparr>Address = RemoteAddr s c\<rparr>)\<rparr>"
  have e: "\<And>ps. find_conn s1 c ps = find_conn s c ps"
    by (rule find_conn_heap) (simp add: s1_def)
  have e2: "\<And>r'. elems s1 (rooms_at s1 r') = elems s (rooms_at s r')"
    by (simp add: s1_def elems_def rooms_at_def)
  have n: "\<forall>r'. find_conn s1 c (elems s1 (rooms_at s1 r')) = None"
    using assms by (simp add: e e2)
  have k: "kickUser ord c s1 = s1" "kickUser ord' c s1 = s1"
    using n by (simp_all add: kickUser_absent)
  have first: "banUser ord c s = s1"
    using k(1) by (simp add: banUser_def Let_def s1_def)
  have "s1\<lparr>bannedUsers := (bannedUsers s1)(RemoteAddr s1 c \<mapsto> \<lparr>Address = RemoteAddr s1 c\<rparr>)\<rparr>
          = s1"
    by (simp add: s1_def)
  then have "banUser ord' c s1 = s1"
    using k(2) by (simp add: banUser_def Let_def)
  with first show ?thesis
    by simp
qed

lemma banUser_twice_single_membership:
  assumes r: "rooms s r = Some sl"
      and wf: "len sl \<le> cap sl" "len sl \<le> length (arrays s (arr sl))"
      and f: "find_conn s c (elems s sl) = Some i"
      and cr: "room (heap s (elems s sl ! i)) = r"
      and once: "find_conn s c (drop (Suc i) (elems s sl)) = None"
      and others: "\<forall>r'. r' \<noteq> r \<longrightarrow> find_conn s c (elems s (rooms_at s r')) = None"
      and own: "\<forall>r' sl'. r' \<noteq> r \<and> rooms s r' = Some sl' \<longrightarrow> arr sl' \<noteq> arr sl"
      and ord: "r \<in> set ord"
  shows "banUser ord' c (banUser ord c s) = banUser ord c s"
proof -
  define s1 where "s1 = s\<lparr>bannedUsers := (bannedUsers s)(RemoteAddr s c \<mapsto> \<lparr>Address = RemoteAddr s c\<rparr>)\<rparr>"
  define es where "es = elems s sl"
  define K where "K = s1\<lparr>rooms := (rooms s1)(r \<mapsto> sl\<lparr>len := len sl - 1\<rparr>),
             heap := (heap s1)(es ! i := (heap s1 (es ! i))\<lparr>room := []\<rparr>),
             arrays := (arrays s1)(arr sl :=
                 take i es @ drop (Suc i) es @ drop (len sl - 1) (arrays s1 (arr sl))),
             wire := (if closed s1 c \<or> down s1 c then wire s1
                      else (wire s1)(c := wire s1 c @ [msg_kicked]))\<rparr>"
  have e1: "\<And>h. elems s1 h = elems s h" "\<And>x. rooms_at s1 x = rooms_at s x"
           "\<And>ps. find_conn s1 c ps = find_conn s c ps"
    by (simp_all add: s1_def elems_def rooms_at_def find_conn_heap)
  obtain pre post where sp: "ord = pre @ r # post" and pre: "r \<notin> set pre"
    using split_list_first [OF ord] by blast
  have "\<forall>r' \<in> set pre. find_conn s1 c (elems s1 (rooms_at s1 r')) = None"
    using others pre by (auto simp: e1)
  then have "kickUser ord c s1 = kickUser (r # post) c s1"
    unfolding sp by (rule kickUser_skip)
  also have "\<dots> = K"
    unfolding K_def es_def e1 [symmetric]
    by (rule kickUser_here) (use r wf f cr in \<open>simp_all add: e1, simp_all add: s1_def\<close>)
  finally have first: "banUser ord c s = K"
    by (simp add: banUser_def Let_def s1_def)
  have l: "length es = len sl"
    using wf(2) by (simp add: es_def elems_def)
  have i: "i < len sl"
    using find_conn_Some [OF f] l by (simp add: es_def)
  have hc: "\<forall>p. conn (heap K p) = conn (heap s p)"
    by (simp add: K_def s1_def)
  have fk: "\<And>ps. find_conn K c ps = find_conn s c ps"
    using hc by (rule find_conn_heap)
  have gone: "find_conn s c (take i es @ drop (Suc i) es) = None"
    using find_conn_before [OF f] once by (simp add: find_conn_append_None es_def)
  have here: "elems K (rooms_at K r) = take i es @ drop (Suc i) es"
    using i l by (intro elems_prefix) (auto simp: K_def rooms_at_def)
  have there: "find_conn K c (elems K (rooms_at K r')) = None" if "r' \<noteq> r" for r'
  proof (cases "rooms s r'")
    case None
    then show ?thesis
      using that by (simp add: K_def s1_def rooms_at_def elems_def nil_slice_def)
  next
    case (Some sl')
    then have "arr sl' \<noteq> arr sl"
      using own that by blast
    then have "elems K (rooms_at K r') = elems s (rooms_at s r')"
      using Some that by (simp add: K_def s1_def rooms_at_def elems_def)
    then show ?thesis
      using others that by (simp add: fk)
  qed
  have "\<forall>r' \<in> set ord'. find_conn K c (elems K (rooms_at K r')) = None"
    using here gone there by (metis fk)
  then have "kickUser ord' c K = K"
    by (rule kickUser_absent)
  moreover have "K\<lparr>bannedUsers := (bannedUsers K)(RemoteAddr K c \<mapsto> \<lparr>Address = RemoteAddr K c\<rparr>)\<rparr> = K"
    by (simp add: K_def s1_def)
  ultimately have "banUser ord' c K = K"
    by (simp add: banUser_def Let_def)
  with first show ?thesis
    by simp
qed


text \<open>
  Claim C9, at a failing input. After the run \<open>two_rooms\<close> the session of connection 10
  is in the member lists of the room with the empty name and of room \<open>y\<close>. Each call of
  \<open>banUser\<close> ends at the first list in which it finds the connection, so the first ban
  leaves the session in the room with the empty name and the second ban takes it out:
  banning twice does not leave the room directory as banning once does. This is so in
  whichever order \<open>range rooms\<close> visits the two rooms.
\<close>

theorem C9_second_ban_changes_rooms:
  "map_option (\<lambda>st. map_option (elems st) (rooms st []))
     (run (two_rooms @ [Ban [10, 20] [''y'', []] ''10.0.0.1:4000'']) init) = Some (Some [1])
   \<and> map_option (\<lambda>st. map_option (elems st) (rooms st []))
     (run (two_rooms @ [Ban [10, 20] [''y'', []] ''10.0.0.1:4000'',
                        Ban [10, 20] [''y'', []] ''10.0.0.1:4000'']) init) = Some (Some [])
   \<and> map_option (\<lambda>st. map_option (elems st) (rooms st []))
     (run (two_rooms @ [Ban [10, 20] [[], ''y''] ''10.0.0.1:4000'']) init) = Some (Some [1])
   \<and> map_option (\<lambda>st. map_option (elems st) (rooms st []))
     (run (two_rooms @ [Ban [10, 20] [[], ''y''] ''10.0.0.1:4000'',
                        Ban [10, 20] [[], ''y''] ''10.0.0.1:4000'']) init) = Some (Some [])"
  by code_simp


end
